theory Spec2Isabelle
  imports Complex_Main "HOL-Library.Word"
begin

section \<open>Values, exceptions and warnings\<close>

text \<open>
  Exceptions of the Python code are values of \<open>exn\<close>; a fallible function returns
  \<open>exn + 'a\<close> with \<open>Inl\<close> the raised exception. \<open>ValueError\<close> carries its message.
  \<open>NanResult\<close> is not an exception: it marks a floating-point mean over an empty block
  (NaN), which has no counterpart in a field, so that no statement below can rest on
  the value HOL gives to a division by zero.
\<close>

datatype exn =
    ValueError string
  | IndexError
  | AxisError
  | ZeroDivisionError
  | NanResult

text \<open>A warning sent through \<open>warnings.warn(msg, RuntimeWarning)\<close>.\<close>

datatype warning = RuntimeWarning string

text \<open>Sequencing: the first exception raised ends the computation.\<close>

definition exn_bind :: "exn + 'a \<Rightarrow> ('a \<Rightarrow> exn + 'b) \<Rightarrow> exn + 'b" where
  "exn_bind r f = (case r of Inl e \<Rightarrow> Inl e | Inr v \<Rightarrow> f v)"

text \<open>
  The argument \<open>nlooks\<close> of type \<open>Union[SupportsInt, Iterable[SupportsInt]]\<close>:
  \<open>Scalar n\<close> is a value on which \<open>int(nlooks)\<close> returns \<open>n\<close>; \<open>Iterable ns\<close> is a value
  on which \<open>int(nlooks)\<close> raises \<open>TypeError\<close> and whose elements convert to \<open>ns\<close>.
\<close>

datatype nlooks_arg = Scalar int | Iterable "int list"

text \<open>
  An N-dimensional array: its shape and its elements in row-major (C) order.
  The element type is a field (real or complex numbers); floating-point rounding is
  not modelled.
\<close>

record 'a ndarray =
  shape :: "nat list"
  data :: "'a list"

definition ndim :: "'a ndarray \<Rightarrow> nat" where
  "ndim arr = length (shape arr)"

definition wf_array :: "'a ndarray \<Rightarrow> bool" where
  "wf_array arr \<longleftrightarrow> length (data arr) = prod_list (shape arr)"

section \<open>Decimal formatting of f-strings\<close>

definition digit_char :: "nat \<Rightarrow> char" where
  "digit_char d = ''0123456789'' ! d"

function string_of_nat :: "nat \<Rightarrow> string" where
  "string_of_nat n =
     (if n < 10 then [digit_char n]
      else string_of_nat (n div 10) @ [digit_char (n mod 10)])"
  by pat_completeness auto
termination
  by (relation "measure id") auto

declare string_of_nat.simps [simp del]

section \<open>util.py\<close>

text \<open>
  \<open>ceil_divide\<close> converts both arguments with \<open>np.asanyarray\<close>; a Python integer in the
  64-bit range becomes an array of dtype \<open>int64\<close>, whose \<open>+\<close> and \<open>-\<close> wrap around
  modulo \<open>2^64\<close> and whose \<open>//\<close> is floor division on the signed values.
\<close>

type_synonym int64 = "64 word"

definition np_sign :: "int64 \<Rightarrow> int64" where
  "np_sign d = (if sint d < 0 then - 1 else if sint d = 0 then 0 else 1)"

definition np_floor_divide :: "int64 \<Rightarrow> int64 \<Rightarrow> int64" where
  "np_floor_divide x d = word_of_int (sint x div sint d)"

definition ceil_divide :: "int64 \<Rightarrow> int64 \<Rightarrow> int64" where
  "ceil_divide n d = np_floor_divide (n + d - np_sign d) d"

definition iseven :: "int \<Rightarrow> bool" where
  "iseven n \<longleftrightarrow> n mod 2 = 0"

definition interleave :: "'b list \<Rightarrow> 'b list \<Rightarrow> exn + 'b list" where
  "interleave s1 s2 =
     (if length s1 \<noteq> length s2 then
        Inl (ValueError (''length mismatch: sequence lengths must be equal, got ''
               @ string_of_nat (length s1) @ '' and '' @ string_of_nat (length s2)))
      else Inr (concat (map (\<lambda>(a, b). [a, b]) (zip s1 s2))))"

section \<open>The array operations used by multilook\<close>

text \<open>Row-major offset of a multi-index, and all multi-indices of a shape in row-major order.\<close>

fun ravel :: "nat list \<Rightarrow> nat list \<Rightarrow> nat" where
  "ravel (d # ds) (i # ix) = i * prod_list ds + ravel ds ix"
| "ravel _ _ = 0"

fun indices :: "nat list \<Rightarrow> nat list list" where
  "indices [] = [[]]"
| "indices (d # ds) = concat (map (\<lambda>i. map ((#) i) (indices ds)) [0..<d])"

text \<open>\<open>arr[idx]\<close> for a multi-index that is in range (\<open>list_all2 (<) idx (shape arr)\<close>).\<close>

definition getitem :: "'a ndarray \<Rightarrow> nat list \<Rightarrow> 'a" where
  "getitem arr idx = data arr ! ravel (shape arr) idx"

text \<open>
  Element-wise arithmetic of NumPy on two one-dimensional sequences, with broadcasting:
  equal lengths pair up, a sequence of length one is stretched, anything else raises.
\<close>

definition broadcast2 :: "(int \<Rightarrow> int \<Rightarrow> int) \<Rightarrow> int list \<Rightarrow> int list \<Rightarrow> exn + int list" where
  "broadcast2 f xs ys =
     (if length xs = length ys then Inr (map2 f xs ys)
      else if length xs = 1 then Inr (map (f (hd xs)) ys)
      else if length ys = 1 then Inr (map (\<lambda>x. f x (hd ys)) xs)
      else Inl (ValueError ''operands could not be broadcast together''))"

definition floor_divide :: "int list \<Rightarrow> int list \<Rightarrow> exn + int list" where
  "floor_divide = broadcast2 (\<lambda>m n. m div n)"

definition multiply :: "int list \<Rightarrow> int list \<Rightarrow> exn + int list" where
  "multiply = broadcast2 (\<lambda>m n. m * n)"

text \<open>
  The number of elements that \<open>slice(n)\<close> selects on an axis of length \<open>m\<close>: the first
  \<open>n\<close> of them, at most \<open>m\<close>; a negative \<open>n\<close> counts from the end.
\<close>

definition slice_len :: "nat \<Rightarrow> int \<Rightarrow> nat" where
  "slice_len m n = (if n < 0 then nat (int m + n) else min m (nat n))"

text \<open>
  \<open>arr[tuple(slice(n) for n in stops)]\<close>: more slices than axes raise \<open>IndexError\<close>; axes
  without a slice are kept whole.
\<close>

definition getitem_slices :: "'a ndarray \<Rightarrow> int list \<Rightarrow> exn + 'a ndarray" where
  "getitem_slices arr stops =
     (if length stops > ndim arr then Inl IndexError
      else
        let new_shape = map2 slice_len (shape arr) stops @ drop (length stops) (shape arr)
        in Inr \<lparr>shape = new_shape, data = map (getitem arr) (indices new_shape)\<rparr>)"

text \<open>
  \<open>arr.reshape(new)\<close> in row-major order keeps the elements and their order. One entry
  \<open>-1\<close> is inferred from the size; a mismatch of sizes raises \<open>ValueError\<close>.
\<close>

definition reshape :: "'a ndarray \<Rightarrow> int list \<Rightarrow> exn + 'a ndarray" where
  "reshape arr new =
     (let size = prod_list (shape arr);
          known = prod_list (map nat (filter (\<lambda>d. d \<noteq> - 1) new))
      in
        if (\<exists>d \<in> set new. d < - 1) \<or> length (filter (\<lambda>d. d = - 1) new) > 1 then
          Inl (ValueError ''invalid shape'')
        else if length (filter (\<lambda>d. d = - 1) new) = 1 then
          (if known = 0 \<or> size mod known \<noteq> 0 then
             Inl (ValueError ''cannot reshape array'')
           else
             Inr \<lparr>shape = map (\<lambda>d. if d = - 1 then size div known else nat d) new,
                  data = data arr\<rparr>)
        else if known \<noteq> size then Inl (ValueError ''cannot reshape array'')
        else Inr \<lparr>shape = map nat new, data = data arr\<rparr>)"

text \<open>\<open>np.ogrid[start:stop:step]\<close> for a positive step: \<open>start, start + step, ...\<close> below \<open>stop\<close>.\<close>

definition ogrid :: "nat \<Rightarrow> nat \<Rightarrow> nat \<Rightarrow> nat list" where
  "ogrid start stop step =
     map (\<lambda>i. start + step * i) [0..<(stop - start + step - 1) div step]"

text \<open>
  The entries of a list at the positions that satisfy \<open>P\<close>, counted from \<open>i\<close>; and the
  multi-index of the input that has the entries of \<open>k\<close> at the positions satisfying \<open>R\<close>
  and the entries of \<open>j\<close> elsewhere.
\<close>

fun select_axes :: "(nat \<Rightarrow> bool) \<Rightarrow> nat \<Rightarrow> 'b list \<Rightarrow> 'b list" where
  "select_axes P i [] = []"
| "select_axes P i (x # xs) =
     (if P i then x # select_axes P (Suc i) xs else select_axes P (Suc i) xs)"

fun weave :: "(nat \<Rightarrow> bool) \<Rightarrow> nat \<Rightarrow> nat list \<Rightarrow> nat list \<Rightarrow> nat list" where
  "weave R i [] k = k"
| "weave R i j [] = j"
| "weave R i (x # j) (y # k) =
     (if R i then y # weave R (Suc i) (x # j) k else x # weave R (Suc i) j (y # k))"

text \<open>
  \<open>da.mean(arr, axis=axes)\<close>: the result keeps the axes not listed; each element is the
  sum over the listed axes divided by the number of summed elements.
\<close>

definition mean :: "('a::field) ndarray \<Rightarrow> nat list \<Rightarrow> exn + 'a ndarray" where
  "mean arr axes =
     (if \<exists>a \<in> set axes. a \<ge> ndim arr then Inl AxisError
      else if \<not> distinct axes then Inl (ValueError ''duplicate value in axis'')
      else
        let kept = select_axes (\<lambda>i. i \<notin> set axes) 0 (shape arr);
            reduced = select_axes (\<lambda>i. i \<in> set axes) 0 (shape arr);
            count = prod_list reduced
        in
          if count = 0 \<and> prod_list kept \<noteq> 0 then Inl NanResult
          else
            Inr \<lparr>shape = kept,
                 data = map (\<lambda>j. sum_list (map (\<lambda>k. getitem arr (weave (\<lambda>i. i \<in> set axes) 0 j k))
                                              (indices reduced)) / of_nat count)
                            (indices kept)\<rparr>)"

section \<open>multilook.py\<close>

definition normalize_nlooks_tuple :: "nlooks_arg \<Rightarrow> nat \<Rightarrow> exn + int list" where
  "normalize_nlooks_tuple nlooks ndim' =
     (case nlooks of
        Scalar n \<Rightarrow> Inr (replicate ndim' n)
      | Iterable ns \<Rightarrow>
          if length ns \<noteq> ndim' then
            Inl (ValueError (''length mismatch: length of nlooks ('' @ string_of_nat (length ns)
                   @ '') must match input array rank ('' @ string_of_nat ndim' @ '')''))
          else Inr ns)"

text \<open>The loop of the fatal checks over \<open>zip(arr.shape, nlooks)\<close>.\<close>

fun check_looks :: "(nat \<times> int) list \<Rightarrow> exn option" where
  "check_looks [] = None"
| "check_looks ((m, n) # ps) =
     (if n < 1 then Some (ValueError ''number of looks must be >= 1'')
      else if n > int m then Some (ValueError ''number of looks should not exceed array shape'')
      else check_looks ps)"

text \<open>\<open>any(m % n != 0 for (m, n) in zip(arr.shape, nlooks))\<close>, which stops at the first hit.\<close>

fun any_remainder :: "(nat \<times> int) list \<Rightarrow> exn + bool" where
  "any_remainder [] = Inr False"
| "any_remainder ((m, n) # ps) =
     (if n = 0 then Inl ZeroDivisionError
      else if int m mod n \<noteq> 0 then Inr True
      else any_remainder ps)"

definition even_warning :: warning where
  "even_warning = RuntimeWarning
     (''one or more components of nlooks is even-valued -- this will result in a''
      @ '' phase delay in the multilooked data equivalent to a half-bin shift'')"

definition remainder_warning :: warning where
  "remainder_warning = RuntimeWarning
     (''input array shape is not an integer multiple of nlooks -- remainder''
      @ '' samples will be excluded from output'')"

text \<open>The result of \<open>validate_nlooks\<close> is the list of warnings it emitted, in order.\<close>

definition validate_nlooks :: "int list \<Rightarrow> 'a ndarray \<Rightarrow> exn + warning list" where
  "validate_nlooks nlooks arr =
     (case check_looks (zip (shape arr) nlooks) of
        Some e \<Rightarrow> Inl e
      | None \<Rightarrow>
          let w1 = (if list_ex iseven nlooks then [even_warning] else [])
          in exn_bind (any_remainder (zip (shape arr) nlooks))
               (\<lambda>b. Inr (w1 @ (if b then [remainder_warning] else []))))"

definition multilook :: "('a::field) ndarray \<Rightarrow> nlooks_arg \<Rightarrow> exn + (warning list \<times> 'a ndarray)" where
  "multilook arr nlooks_in =
     exn_bind (normalize_nlooks_tuple nlooks_in (ndim arr)) (\<lambda>nlooks.
     exn_bind (validate_nlooks nlooks arr) (\<lambda>ws.
     exn_bind (floor_divide (map int (shape arr)) nlooks) (\<lambda>out_shape.
     exn_bind (multiply out_shape nlooks) (\<lambda>valid_shape.
     exn_bind (getitem_slices arr valid_shape) (\<lambda>cropped_arr.
     exn_bind (interleave out_shape nlooks) (\<lambda>tmp_shape.
     exn_bind (reshape cropped_arr tmp_shape) (\<lambda>reshaped_arr.
     exn_bind (mean reshaped_arr (ogrid 1 (ndim reshaped_arr) 2)) (\<lambda>out.
     Inr (ws, out)))))))))"

section \<open>Notions used to state the properties\<close>

text \<open>The list \<open>[x1, y1, x2, y2, ...]\<close> that \<open>interleave\<close> returns on lists of equal length.\<close>

abbreviation pairs_flat :: "'b list \<Rightarrow> 'b list \<Rightarrow> 'b list" where
  "pairs_flat xs ys \<equiv> concat (map (\<lambda>(a, b). [a, b]) (zip xs ys))"

text \<open>
  The array of block means over the windows \<open>ns\<close>: the closed form that \<open>multilook\<close> is
  shown to compute once its argument has passed the checks.
\<close>

definition box_means :: "('a::field) ndarray \<Rightarrow> nat list \<Rightarrow> 'a ndarray" where
  "box_means arr ns =
     \<lparr>shape = map2 (div) (shape arr) ns,
      data = map (\<lambda>j. sum_list (map (\<lambda>k. getitem arr (map2 (+) (map2 (*) j ns) k)) (indices ns))
                        / of_nat (prod_list ns))
                 (indices (map2 (div) (shape arr) ns))\<rparr>"

text \<open>
  The multi-indices of the box \<open>arr[j1*n1 : (j1+1)*n1, ..., jN*nN : (jN+1)*nN]\<close>, and the
  arithmetic mean of the input over that box.
\<close>

fun block_indices :: "nat list \<Rightarrow> nat list \<Rightarrow> nat list list" where
  "block_indices (n # ns) (j # js) =
     concat (map (\<lambda>i. map ((#) i) (block_indices ns js)) [j * n..<(j + 1) * n])"
| "block_indices _ _ = [[]]"

definition block_mean :: "('a::field) ndarray \<Rightarrow> nat list \<Rightarrow> nat list \<Rightarrow> 'a" where
  "block_mean arr ns j =
     sum_list (map (getitem arr) (block_indices ns j)) / of_nat (length (block_indices ns j))"

text \<open>
  The array obtained from \<open>c\<close> by repeating each element \<open>k\<^sub>i\<close> times along axis \<open>i\<close>
  (\<open>repeat(..., repeats=k[i], axis=i)\<close> on every axis): the element at \<open>idx\<close> is the element of
  \<open>c\<close> at \<open>idx[i] // k[i]\<close>.
\<close>

definition tile_blocks :: "'a ndarray \<Rightarrow> nat list \<Rightarrow> 'a ndarray" where
  "tile_blocks c k =
     \<lparr>shape = map2 (*) (shape c) k,
      data = map (\<lambda>idx. getitem c (map2 (div) idx k)) (indices (map2 (*) (shape c) k))\<rparr>"

text \<open>The window sizes pass the fatal checks of \<open>validate_nlooks\<close> on every axis.\<close>

definition valid_nlooks :: "int list \<Rightarrow> 'a ndarray \<Rightarrow> bool" where
  "valid_nlooks nlooks arr \<longleftrightarrow>
     length nlooks = ndim arr \<and> list_all2 (\<lambda>m n. 1 \<le> n \<and> n \<le> int m) (shape arr) nlooks"

section \<open>Multi-indices and row-major offsets\<close>

lemma length_indices: "length (indices s) = prod_list s"
  by (induction s) (simp_all add: length_concat comp_def sum_list_triv)

lemma set_indices: "set (indices s) = {idx. list_all2 (<) idx s}"
proof (induction s)
  case Nil
  then show ?case by auto
next
  case (Cons d ds)
  show ?case
  proof (rule set_eqI)
    fix idx
    show "idx \<in> set (indices (d # ds)) \<longleftrightarrow> idx \<in> {idx. list_all2 (<) idx (d # ds)}"
      using Cons by (cases idx) (auto simp: list_all2_Cons2)
  qed
qed

lemma concat_nth_uniform:
  "\<forall>b \<in> set bs. length b = p \<Longrightarrow> i < length bs \<Longrightarrow> r < p \<Longrightarrow> concat bs ! (i * p + r) = bs ! i ! r"
proof (induction bs arbitrary: i)
  case Nil
  then show ?case by simp
next
  case (Cons b bs)
  show ?case
  proof (cases i)
    case 0
    with Cons.prems show ?thesis by (simp add: nth_append)
  next
    case (Suc i')
    with Cons.prems have "concat bs ! (i' * p + r) = bs ! i' ! r"
      by (intro Cons.IH) auto
    with Suc Cons.prems show ?thesis by (simp add: nth_append)
  qed
qed

lemma ravel_bound_step: "i < d \<Longrightarrow> r < p \<Longrightarrow> i * p + r < d * (p::nat)"
proof -
  assume a: "i < d" "r < p"
  then have "i * p + r < Suc i * p" by simp
  also from a have "\<dots> \<le> d * p" by (intro mult_le_mono1) simp
  finally show ?thesis .
qed

lemma ravel_less: "list_all2 (<) idx s \<Longrightarrow> ravel s idx < prod_list s"
proof (induction s arbitrary: idx)
  case Nil
  then show ?case by simp
next
  case (Cons d ds)
  then obtain i ix where idx: "idx = i # ix" "i < d" "list_all2 (<) ix ds"
    by (auto simp: list_all2_Cons2)
  with Cons.IH[of ix] show ?case by (simp add: ravel_bound_step)
qed

lemma indices_nth_ravel: "list_all2 (<) idx s \<Longrightarrow> indices s ! ravel s idx = idx"
proof (induction s arbitrary: idx)
  case Nil
  then show ?case by simp
next
  case (Cons d ds)
  then obtain i ix where idx: "idx = i # ix" "i < d" "list_all2 (<) ix ds"
    by (auto simp: list_all2_Cons2)
  let ?bs = "map (\<lambda>i. map ((#) i) (indices ds)) [0..<d]"
  have r: "ravel ds ix < prod_list ds" using idx by (simp add: ravel_less)
  have "concat ?bs ! (i * prod_list ds + ravel ds ix) = ?bs ! i ! ravel ds ix"
    using idx r by (intro concat_nth_uniform) (auto simp: length_indices)
  also have "\<dots> = i # indices ds ! ravel ds ix"
    using idx r by (simp add: length_indices)
  finally show ?case using idx Cons.IH[of ix] by simp
qed

lemma prod_list_pairs_flat:
  "length os = length ns \<Longrightarrow> prod_list (pairs_flat os ns) = prod_list (map2 (*) os ns :: nat list)"
  by (induction os ns rule: list_induct2) (simp_all add: mult.assoc)

lemma ravel_pairs_flat:
  "length os = length ns \<Longrightarrow> length ns = length j \<Longrightarrow> length j = length k \<Longrightarrow>
   ravel (pairs_flat os ns) (pairs_flat j k) = ravel (map2 (*) os ns) (map2 (+) (map2 (*) j ns) k)"
proof (induction os ns j k rule: list_induct4)
  case Nil
  then show ?case by simp
next
  case (Cons x xs y ys z zs w ws)
  then show ?case by (simp add: prod_list_pairs_flat algebra_simps)
qed

section \<open>The reshaped array and its reduction\<close>

lemma select_axes_pairs_flat_fst:
  "length xs = length ys \<Longrightarrow> \<forall>t<length xs. P (i + 2 * t) \<and> \<not> P (Suc (i + 2 * t)) \<Longrightarrow>
   select_axes P i (pairs_flat xs ys) = xs"
proof (induction xs ys arbitrary: i rule: list_induct2)
  case Nil
  then show ?case by simp
next
  case (Cons x xs y ys)
  from Cons.prems have h0: "P i" "\<not> P (Suc i)" by force+
  have "\<forall>t<length xs. P (Suc (Suc i) + 2 * t) \<and> \<not> P (Suc (Suc (Suc i) + 2 * t))"
  proof (intro allI impI)
    fix t assume "t < length xs"
    then have "Suc t < length (x # xs)" by simp
    from Cons.prems[rule_format, OF this] show "P (Suc (Suc i) + 2 * t) \<and> \<not> P (Suc (Suc (Suc i) + 2 * t))"
      by simp
  qed
  then have "select_axes P (Suc (Suc i)) (pairs_flat xs ys) = xs" by (rule Cons.IH)
  with h0 show ?case by simp
qed

lemma select_axes_pairs_flat_snd:
  "length xs = length ys \<Longrightarrow> \<forall>t<length xs. \<not> P (i + 2 * t) \<and> P (Suc (i + 2 * t)) \<Longrightarrow>
   select_axes P i (pairs_flat xs ys) = ys"
proof (induction xs ys arbitrary: i rule: list_induct2)
  case Nil
  then show ?case by simp
next
  case (Cons x xs y ys)
  from Cons.prems have h0: "\<not> P i" "P (Suc i)" by force+
  have "\<forall>t<length xs. \<not> P (Suc (Suc i) + 2 * t) \<and> P (Suc (Suc (Suc i) + 2 * t))"
  proof (intro allI impI)
    fix t assume "t < length xs"
    then have "Suc t < length (x # xs)" by simp
    from Cons.prems[rule_format, OF this] show "\<not> P (Suc (Suc i) + 2 * t) \<and> P (Suc (Suc (Suc i) + 2 * t))"
      by simp
  qed
  then have "select_axes P (Suc (Suc i)) (pairs_flat xs ys) = ys" by (rule Cons.IH)
  with h0 show ?case by simp
qed

lemma weave_pairs_flat:
  "length j = length k \<Longrightarrow> \<forall>t<length j. \<not> R (i + 2 * t) \<and> R (Suc (i + 2 * t)) \<Longrightarrow>
   weave R i j k = pairs_flat j k"
proof (induction j k arbitrary: i rule: list_induct2)
  case Nil
  then show ?case by simp
next
  case (Cons x xs y ys)
  from Cons.prems have h0: "\<not> R i" "R (Suc i)" by force+
  have "\<forall>t<length xs. \<not> R (Suc (Suc i) + 2 * t) \<and> R (Suc (Suc (Suc i) + 2 * t))"
  proof (intro allI impI)
    fix t assume "t < length xs"
    then have "Suc t < length (x # xs)" by simp
    from Cons.prems[rule_format, OF this] show "\<not> R (Suc (Suc i) + 2 * t) \<and> R (Suc (Suc (Suc i) + 2 * t))"
      by simp
  qed
  then have ih: "weave R (Suc (Suc i)) xs ys = pairs_flat xs ys" by (rule Cons.IH)
  have "weave R (Suc i) xs (y # ys) = y # weave R (Suc (Suc i)) xs ys"
    using h0 Cons.hyps by (cases xs; cases ys) simp_all
  with h0 ih show ?case by simp
qed

lemma ogrid_odd: "ogrid 1 (2 * n) 2 = map (\<lambda>t. Suc (2 * t)) [0..<n]"
proof -
  have "(2 * n - 1 + 2 - 1) div 2 = n" by (cases n) simp_all
  then show ?thesis by (simp add: ogrid_def)
qed

lemma length_pairs_flat: "length xs = length ys \<Longrightarrow> length (pairs_flat xs ys) = 2 * length ys"
  by (induction xs ys rule: list_induct2) simp_all

lemma mean_pairs_flat:
  fixes r :: "('a::field) ndarray"
  assumes len: "length os = length ns" and pos: "\<forall>n \<in> set ns. 1 \<le> n"
    and sh: "shape r = pairs_flat os ns"
  shows "mean r (ogrid 1 (ndim r) 2) =
    Inr \<lparr>shape = os,
         data = map (\<lambda>j. sum_list (map (\<lambda>k. getitem r (pairs_flat j k)) (indices ns))
                           / of_nat (prod_list ns)) (indices os)\<rparr>"
proof -
  let ?axes = "map (\<lambda>t. Suc (2 * t)) [0..<length ns]"
  have nd: "ndim r = 2 * length ns" using len sh by (simp add: ndim_def length_pairs_flat)
  have ax: "ogrid 1 (ndim r) 2 = ?axes" by (simp only: nd ogrid_odd)
  have mem: "a \<in> set ?axes \<longleftrightarrow> (\<exists>t<length ns. a = Suc (2 * t))" for a by auto
  have inr: "\<not> (\<exists>a \<in> set ?axes. a \<ge> ndim r)" by (auto simp: nd)
  have dist: "distinct ?axes" by (simp add: distinct_map inj_on_def)
  have alt: "\<forall>t<length os. (0 + 2 * t) \<notin> set ?axes \<and> \<not> (Suc (0 + 2 * t) \<notin> set ?axes)"
    using len by (auto simp: mem) presburger
  have alt': "\<forall>t<length os. \<not> (0 + 2 * t) \<in> set ?axes \<and> Suc (0 + 2 * t) \<in> set ?axes"
    using alt by simp
  have kept: "select_axes (\<lambda>i. i \<notin> set ?axes) 0 (shape r) = os"
    unfolding sh using len alt by (rule select_axes_pairs_flat_fst)
  have red: "select_axes (\<lambda>i. i \<in> set ?axes) 0 (shape r) = ns"
    unfolding sh using len alt' by (rule select_axes_pairs_flat_snd)
  have cnt: "prod_list ns \<noteq> 0" using pos by (auto simp: prod_list_zero_iff)
  have wv: "weave (\<lambda>i. i \<in> set ?axes) 0 j k = pairs_flat j k"
    if "j \<in> set (indices os)" "k \<in> set (indices ns)" for j k
  proof -
    from that have l: "length j = length os" "length k = length ns"
      by (auto simp: set_indices dest: list_all2_lengthD)
    with len have "length j = length k" by simp
    moreover have "\<forall>t<length j. \<not> (0 + 2 * t) \<in> set ?axes \<and> Suc (0 + 2 * t) \<in> set ?axes"
      using alt' l by simp
    ultimately show ?thesis by (rule weave_pairs_flat)
  qed
  have dat: "map (\<lambda>j. sum_list (map (\<lambda>k. getitem r (weave (\<lambda>i. i \<in> set ?axes) 0 j k)) (indices ns))
                           / of_nat (prod_list ns)) (indices os)
    = map (\<lambda>j. sum_list (map (\<lambda>k. getitem r (pairs_flat j k)) (indices ns))
                           / of_nat (prod_list ns)) (indices os)"
    by (intro map_cong refl arg_cong2[where f="(/)"] arg_cong[where f=sum_list]) (simp only: wv)
  show ?thesis
    unfolding mean_def ax Let_def kept red
    using inr dist cnt dat by (simp only: if_False if_True ax[symmetric] simp_thms) 
qed

lemma check_looks_None_iff:
  "check_looks ps = None \<longleftrightarrow> (\<forall>(m, n) \<in> set ps. 1 \<le> n \<and> n \<le> int m)"
  by (induction ps rule: check_looks.induct) auto

lemma any_remainder_valid:
  "\<forall>(m, n) \<in> set ps. 1 \<le> n \<Longrightarrow> any_remainder ps = Inr (\<exists>(m, n) \<in> set ps. int m mod n \<noteq> 0)"
  by (induction ps rule: any_remainder.induct) auto

lemma floor_divide_nat:
  "length s = length ns \<Longrightarrow>
   floor_divide (map int s) (map int ns) = Inr (map int (map2 (div) s ns))"
  by (simp add: floor_divide_def broadcast2_def zip_map_map case_prod_unfold zdiv_int)

lemma multiply_nat:
  "length os = length ns \<Longrightarrow>
   multiply (map int os) (map int ns) = Inr (map int (map2 (*) os ns))"
  by (simp add: multiply_def broadcast2_def zip_map_map case_prod_unfold)

lemma slice_len_prefix: "slice_len m (int (m div n * n)) = m div n * n"
proof -
  have "\<not> int (m div n * n) < 0" by (simp only: of_nat_less_0_iff not_False_eq_True)
  moreover have "min m (m div n * n) = m div n * n"
    using div_times_less_eq_dividend[of m n] by (simp only: min_absorb2)
  ultimately show ?thesis unfolding slice_len_def by (simp only: if_False nat_int)
qed

lemma slice_len_crop:
  "length s = length ns \<Longrightarrow>
   map2 slice_len s (map int (map2 (*) (map2 (div) s ns) ns)) = map2 (*) (map2 (div) s ns) ns"
proof (induction s ns rule: list_induct2)
  case Nil
  then show ?case by simp
next
  case (Cons m s n ns)
  then show ?case using slice_len_prefix[of m n] by (simp del: of_nat_mult)
qed

lemma getitem_slices_crop:
  assumes "length (shape arr) = length ns"
  shows "getitem_slices arr (map int (map2 (*) (map2 (div) (shape arr) ns) ns)) =
    Inr \<lparr>shape = map2 (*) (map2 (div) (shape arr) ns) ns,
         data = map (getitem arr) (indices (map2 (*) (map2 (div) (shape arr) ns) ns))\<rparr>"
  unfolding getitem_slices_def ndim_def Let_def slice_len_crop[OF assms]
  using assms by simp

lemma pairs_flat_map_int:
  "length os = length ns \<Longrightarrow> pairs_flat (map int os) (map int ns) = map int (pairs_flat os ns)"
  by (induction os ns rule: list_induct2) simp_all

lemma reshape_pairs_flat:
  assumes "length os = length ns" and "prod_list (shape c) = prod_list (map2 (*) os ns)"
  shows "reshape c (pairs_flat (map int os) (map int ns)) =
    Inr \<lparr>shape = pairs_flat os ns, data = data c\<rparr>"
proof -
  let ?l = "map int (pairs_flat os ns)"
  have f1: "filter (\<lambda>d. d \<noteq> - 1) ?l = ?l" by (simp add: filter_id_conv)
  have f2: "filter (\<lambda>d. d = - 1) ?l = []" by (simp add: filter_empty_conv)
  have f3: "\<not> (\<exists>d \<in> set ?l. d < - 1)" by auto
  have f4: "map nat ?l = pairs_flat os ns" by (simp add: comp_def)
  show ?thesis
    unfolding pairs_flat_map_int[OF assms(1)] reshape_def Let_def f1 f2 f4
    using f3 assms by (simp add: prod_list_pairs_flat)
qed

lemma block_index_in_range:
  "length os = length ns \<Longrightarrow> list_all2 (<) j os \<Longrightarrow> list_all2 (<) k ns \<Longrightarrow>
   list_all2 (<) (map2 (+) (map2 (*) j ns) k) (map2 (*) os (ns :: nat list))"
proof (induction os ns arbitrary: j k rule: list_induct2)
  case Nil
  then show ?case by simp
next
  case (Cons x xs y ys)
  then show ?case by (auto simp: list_all2_Cons2 ravel_bound_step)
qed

section \<open>What multilook computes after validation\<close>

lemma normalize_length: "normalize_nlooks_tuple spec d = Inr nl \<Longrightarrow> length nl = d"
  by (auto simp: normalize_nlooks_tuple_def split: nlooks_arg.splits if_splits)

lemma validate_Inr_checks:
  "validate_nlooks nl arr = Inr ws \<Longrightarrow> \<forall>(m, n) \<in> set (zip (shape arr) nl). 1 \<le> n \<and> n \<le> int m"
  by (auto simp: validate_nlooks_def exn_bind_def check_looks_None_iff[symmetric] split: option.splits)

lemma zip_snd_all:
  assumes "length xs = length ys" and "\<forall>(m, n) \<in> set (zip xs ys). P n"
  shows "\<forall>n \<in> set ys. P n"
proof
  fix n assume "n \<in> set ys"
  then obtain i where i: "i < length ys" "ys ! i = n" by (auto simp: in_set_conv_nth)
  with assms(1) have "(xs ! i, n) \<in> set (zip xs ys)" by (auto simp: set_zip)
  with assms(2) show "P n" by auto
qed

lemma cropped_reshaped_item:
  fixes arr :: "'a ndarray"
  assumes len: "length os = length ns"
    and j: "j \<in> set (indices os)" and k: "k \<in> set (indices ns)"
  shows "getitem \<lparr>shape = pairs_flat os ns,
                  data = map (getitem arr) (indices (map2 (*) os ns))\<rparr> (pairs_flat j k)
       = getitem arr (map2 (+) (map2 (*) j ns) k)"
proof -
  let ?idx = "map2 (+) (map2 (*) j ns) k"
  let ?V = "map2 (*) os ns"
  from j k have jk: "list_all2 (<) j os" "list_all2 (<) k ns" by (simp_all add: set_indices)
  then have l: "length j = length os" "length k = length ns" by (auto dest: list_all2_lengthD)
  have rng: "list_all2 (<) ?idx ?V" using len jk by (rule block_index_in_range)
  have rv: "ravel (pairs_flat os ns) (pairs_flat j k) = ravel ?V ?idx"
    using len l by (intro ravel_pairs_flat) simp_all
  have lt: "ravel ?V ?idx < length (indices ?V)"
    using rng by (simp only: length_indices ravel_less)
  have "getitem \<lparr>shape = pairs_flat os ns, data = map (getitem arr) (indices ?V)\<rparr> (pairs_flat j k)
      = map (getitem arr) (indices ?V) ! ravel ?V ?idx"
    by (simp only: getitem_def ndarray.simps rv)
  also have "\<dots> = getitem arr (indices ?V ! ravel ?V ?idx)" using lt by (rule nth_map)
  also have "\<dots> = getitem arr ?idx" using rng by (simp only: indices_nth_ravel)
  finally show ?thesis .
qed

lemma multilook_after_validation:
  fixes arr :: "('a::field) ndarray"
  assumes norm: "normalize_nlooks_tuple spec (ndim arr) = Inr nl"
    and val: "validate_nlooks nl arr = Inr ws"
  shows "multilook arr spec = Inr (ws, box_means arr (map nat nl))"
proof -
  let ?s = "shape arr"
  let ?ns = "map nat nl"
  let ?os = "map2 (div) ?s ?ns"
  let ?V = "map2 (*) ?os ?ns"
  let ?c = "\<lparr>shape = ?V, data = map (getitem arr) (indices ?V)\<rparr>"
  let ?r = "\<lparr>shape = pairs_flat ?os ?ns, data = map (getitem arr) (indices ?V)\<rparr>"
  have len: "length ?s = length nl" using normalize_length[OF norm] by (simp add: ndim_def)
  have chk: "\<forall>(m, n) \<in> set (zip ?s nl). 1 \<le> n" using validate_Inr_checks[OF val] by auto
  have pos: "\<forall>n \<in> set nl. 1 \<le> n" using len chk by (rule zip_snd_all)
  have nl_eq: "map int ?ns = nl" using pos by (induction nl) auto
  have pos': "\<forall>n \<in> set ?ns. 1 \<le> n" using pos by auto
  have len': "length ?s = length ?ns" "length ?os = length ?ns" using len by simp_all
  have s1: "floor_divide (map int ?s) nl = Inr (map int ?os)"
    using floor_divide_nat[OF len'(1)] by (simp only: nl_eq)
  have s2: "multiply (map int ?os) nl = Inr (map int ?V)"
    using multiply_nat[OF len'(2)] by (simp only: nl_eq)
  have s3: "getitem_slices arr (map int ?V) = Inr ?c"
    using len'(1) by (rule getitem_slices_crop)
  have s4: "interleave (map int ?os) nl = Inr (pairs_flat (map int ?os) nl)"
    using len by (simp add: interleave_def)
  have "reshape ?c (pairs_flat (map int ?os) (map int ?ns)) = Inr \<lparr>shape = pairs_flat ?os ?ns, data = data ?c\<rparr>"
    using len'(2) by (rule reshape_pairs_flat) simp
  then have s5: "reshape ?c (pairs_flat (map int ?os) nl) = Inr ?r"
    by (simp only: nl_eq ndarray.simps)
  have "mean ?r (ogrid 1 (ndim ?r) 2) =
    Inr \<lparr>shape = ?os,
         data = map (\<lambda>j. sum_list (map (\<lambda>k. getitem ?r (pairs_flat j k)) (indices ?ns))
                           / of_nat (prod_list ?ns)) (indices ?os)\<rparr>"
    using len'(2) pos' by (rule mean_pairs_flat) simp
  also have "map (\<lambda>j. sum_list (map (\<lambda>k. getitem ?r (pairs_flat j k)) (indices ?ns))
                           / of_nat (prod_list ?ns)) (indices ?os)
    = map (\<lambda>j. sum_list (map (\<lambda>k. getitem arr (map2 (+) (map2 (*) j ?ns) k)) (indices ?ns))
                           / of_nat (prod_list ?ns)) (indices ?os)"
    by (intro map_cong refl arg_cong2[where f="(/)"] arg_cong[where f=sum_list])
       (rule cropped_reshaped_item[OF len'(2)])
  finally have s6: "mean ?r (ogrid 1 (ndim ?r) 2) = Inr (box_means arr ?ns)"
    by (simp only: box_means_def)
  show ?thesis
    unfolding multilook_def
    by (simp only: norm val s1 s2 s3 s4 s5 s6 exn_bind_def sum.case)
qed

section \<open>Normalisation of the window sizes\<close>

text \<open>
  Claim C6. A scalar window size is broadcast to every axis: \<open>multilook(arr, n)\<close> returns what
  \<open>multilook(arr, (n,) * arr.ndim)\<close> returns (the same array, warnings or exception), and
  \<open>normalize_nlooks_tuple\<close> turns the scalar \<open>n\<close> into \<open>n\<close> repeated \<open>ndim\<close> times.
\<close>

theorem scalar_broadcast:
  "multilook arr (Scalar n) = multilook arr (Iterable (replicate (ndim arr) n))
   \<and> normalize_nlooks_tuple (Scalar n) d = Inr (replicate d n)"
  by (simp add: multilook_def normalize_nlooks_tuple_def)

text \<open>
  Claim C7. On an iterable of integers, \<open>normalize_nlooks_tuple\<close> raises \<open>ValueError\<close> exactly
  when the number of elements differs from \<open>ndim\<close>, with a message that gives both the length
  provided and the rank required; when the lengths agree it returns the elements.
\<close>

theorem normalize_iterable:
  "(length ns \<noteq> d \<longrightarrow>
      normalize_nlooks_tuple (Iterable ns) d =
        Inl (ValueError (''length mismatch: length of nlooks ('' @ string_of_nat (length ns)
               @ '') must match input array rank ('' @ string_of_nat d @ '')'')))
   \<and> (length ns = d \<longrightarrow> normalize_nlooks_tuple (Iterable ns) d = Inr ns)"
  by (simp add: normalize_nlooks_tuple_def)

theorem normalize_iterable_witness:
  "normalize_nlooks_tuple (Iterable [1, 2, 3]) 2 =
     Inl (ValueError ''length mismatch: length of nlooks (3) must match input array rank (2)'')
   \<and> normalize_nlooks_tuple (Iterable [3, 5]) 2 = Inr [3, 5]"
  using normalize_iterable[of "[1, 2, 3]" 2] normalize_iterable[of "[3, 5]" 2]
  by (simp add: string_of_nat.simps digit_char_def)

section \<open>Validation of the window sizes\<close>

lemma check_looks_first:
  "i < length ps \<Longrightarrow> \<forall>k<i. 1 \<le> snd (ps ! k) \<and> snd (ps ! k) \<le> int (fst (ps ! k)) \<Longrightarrow>
   snd (ps ! i) < 1 \<or> int (fst (ps ! i)) < snd (ps ! i) \<Longrightarrow>
   check_looks ps = Some (ValueError (if snd (ps ! i) < 1 then ''number of looks must be >= 1''
                                      else ''number of looks should not exceed array shape''))"
proof (induction ps arbitrary: i rule: check_looks.induct)
  case 1
  then show ?case by simp
next
  case (2 m n ps)
  show ?case
  proof (cases i)
    case 0
    with "2.prems" show ?thesis by auto
  next
    case (Suc i')
    from "2.prems"(2) Suc have h0: "1 \<le> n" "n \<le> int m" by force+
    have "check_looks ps = Some (ValueError (if snd (ps ! i') < 1 then ''number of looks must be >= 1''
                                      else ''number of looks should not exceed array shape''))"
    proof (rule "2.IH")
      show "\<not> n < 1" "\<not> int m < n" using h0 by simp_all
      show "i' < length ps" using "2.prems"(1) Suc by simp
      show "\<forall>k<i'. 1 \<le> snd (ps ! k) \<and> snd (ps ! k) \<le> int (fst (ps ! k))"
      proof (intro allI impI)
        fix k assume "k < i'"
        then have "Suc k < i" using Suc by simp
        from "2.prems"(2)[rule_format, OF this] show "1 \<le> snd (ps ! k) \<and> snd (ps ! k) \<le> int (fst (ps ! k))"
          by simp
      qed
      show "snd (ps ! i') < 1 \<or> int (fst (ps ! i')) < snd (ps ! i')"
        using "2.prems"(3) Suc by simp
    qed
    with h0 Suc show ?thesis by simp
  qed
qed

text \<open>
  Claim C3. If axis \<open>i\<close> is the first axis, in axis order over the zipped length, whose window
  size is below one or above the extent of the array, then \<open>validate_nlooks\<close>, and with it
  \<open>multilook\<close>, raises \<open>ValueError\<close> with the message for that axis: "number of looks must be
  >= 1" when the size is below one, else "number of looks should not exceed array shape".
  The result is the exception alone; no array is produced.
\<close>

theorem first_offending_axis:
  fixes arr :: "('a::field) ndarray"
  assumes "i < length (shape arr)" and "i < length nlooks"
    and "\<forall>k<i. 1 \<le> nlooks ! k \<and> nlooks ! k \<le> int (shape arr ! k)"
    and "nlooks ! i < 1 \<or> int (shape arr ! i) < nlooks ! i"
  shows "validate_nlooks nlooks arr =
           Inl (ValueError (if nlooks ! i < 1 then ''number of looks must be >= 1''
                            else ''number of looks should not exceed array shape''))
       \<and> (\<forall>spec. normalize_nlooks_tuple spec (ndim arr) = Inr nlooks \<longrightarrow>
            multilook arr spec =
              Inl (ValueError (if nlooks ! i < 1 then ''number of looks must be >= 1''
                               else ''number of looks should not exceed array shape'')))"
proof -
  let ?ps = "zip (shape arr) nlooks"
  have "check_looks ?ps = Some (ValueError (if snd (?ps ! i) < 1 then ''number of looks must be >= 1''
                                      else ''number of looks should not exceed array shape''))"
    using assms by (intro check_looks_first) simp_all
  then have v: "validate_nlooks nlooks arr =
           Inl (ValueError (if nlooks ! i < 1 then ''number of looks must be >= 1''
                            else ''number of looks should not exceed array shape''))"
    using assms(1,2) by (simp add: validate_nlooks_def)
  then show ?thesis by (simp add: multilook_def exn_bind_def)
qed

theorem first_offending_axis_witness:
  "validate_nlooks [2, 0] \<lparr>shape = [2, 2], data = [1, 2, 3, 4 :: real]\<rparr>
     = Inl (ValueError ''number of looks must be >= 1'')
   \<and> multilook \<lparr>shape = [2, 2], data = [1, 2, 3, 4 :: real]\<rparr> (Iterable [2, 0])
     = Inl (ValueError ''number of looks must be >= 1'')
   \<and> validate_nlooks [1, 3] \<lparr>shape = [2, 2], data = [1, 2, 3, 4 :: real]\<rparr>
     = Inl (ValueError ''number of looks should not exceed array shape'')
   \<and> multilook \<lparr>shape = [2, 2], data = [1, 2, 3, 4 :: real]\<rparr> (Scalar 3)
     = Inl (ValueError ''number of looks should not exceed array shape'')"
proof -
  let ?A = "\<lparr>shape = [2, 2], data = [1, 2, 3, 4 :: real]\<rparr>"
  have a: "validate_nlooks [2, 0] ?A = Inl (ValueError ''number of looks must be >= 1'')
      \<and> (\<forall>spec. normalize_nlooks_tuple spec (ndim ?A) = Inr [2, 0] \<longrightarrow>
            multilook ?A spec = Inl (ValueError ''number of looks must be >= 1''))"
    using first_offending_axis[of 1 ?A "[2, 0]"] by simp
  have b: "validate_nlooks [1, 3] ?A = Inl (ValueError ''number of looks should not exceed array shape'')"
    using first_offending_axis[of 1 ?A "[1, 3]"] by simp
  have c: "\<forall>spec. normalize_nlooks_tuple spec (ndim ?A) = Inr [3, 3] \<longrightarrow>
            multilook ?A spec = Inl (ValueError ''number of looks should not exceed array shape'')"
    using first_offending_axis[of 0 ?A "[3, 3]"] by simp
  have n1: "normalize_nlooks_tuple (Iterable [2, 0]) (ndim ?A) = Inr [2, 0]"
    by (simp add: normalize_nlooks_tuple_def ndim_def)
  have n2: "normalize_nlooks_tuple (Scalar 3) (ndim ?A) = Inr [3, 3]"
    by (simp add: normalize_nlooks_tuple_def ndim_def numeral_2_eq_2)
  from a b c n1 n2 show ?thesis by blast
qed

lemma validate_checked:
  assumes "\<forall>(m, n) \<in> set (zip (shape arr) nlooks). 1 \<le> n \<and> n \<le> int m"
  shows "validate_nlooks nlooks arr =
     Inr ((if \<exists>n \<in> set nlooks. even n then [even_warning] else [])
          @ (if \<exists>(m, n) \<in> set (zip (shape arr) nlooks). int m mod n \<noteq> 0
             then [remainder_warning] else []))"
proof -
  have c: "check_looks (zip (shape arr) nlooks) = None"
    using assms by (simp add: check_looks_None_iff)
  have "\<forall>(m, n) \<in> set (zip (shape arr) nlooks). 1 \<le> n" using assms by auto
  then have r: "any_remainder (zip (shape arr) nlooks)
      = Inr (\<exists>(m, n) \<in> set (zip (shape arr) nlooks). int m mod n \<noteq> 0)"
    by (rule any_remainder_valid)
  have e: "list_ex iseven nlooks \<longleftrightarrow> (\<exists>n \<in> set nlooks. even n)"
    by (simp add: list_ex_iff iseven_def even_iff_mod_2_eq_zero)
  show ?thesis
    unfolding validate_nlooks_def c r e by (simp add: exn_bind_def)
qed

lemma valid_nlooks_zip:
  "valid_nlooks nlooks arr \<Longrightarrow> \<forall>(m, n) \<in> set (zip (shape arr) nlooks). 1 \<le> n \<and> n \<le> int m"
  by (auto simp: valid_nlooks_def list_all2_iff)

text \<open>
  Claim C5. When every zipped pair passes the fatal checks, \<open>validate_nlooks\<close> returns
  normally. It emits the warning about even window sizes exactly when some component of
  \<open>nlooks\<close> is even, and the warning about excluded remainder samples exactly when some axis
  has \<open>arr.shape[i] % nlooks[i] != 0\<close>; both may be emitted, in this order, and none is
  emitted when every size is odd and divides its extent. \<open>multilook\<close> then still returns an
  array, together with the same warnings.
\<close>

theorem validate_warnings:
  fixes arr :: "('a::field) ndarray"
  assumes "\<forall>(m, n) \<in> set (zip (shape arr) nlooks). 1 \<le> n \<and> n \<le> int m"
  shows "validate_nlooks nlooks arr =
     Inr ((if \<exists>n \<in> set nlooks. even n then [even_warning] else [])
          @ (if \<exists>(m, n) \<in> set (zip (shape arr) nlooks). int m mod n \<noteq> 0
             then [remainder_warning] else []))
   \<and> (\<forall>spec. normalize_nlooks_tuple spec (ndim arr) = Inr nlooks \<longrightarrow>
        (\<exists>out. multilook arr spec =
           Inr ((if \<exists>n \<in> set nlooks. even n then [even_warning] else [])
                @ (if \<exists>(m, n) \<in> set (zip (shape arr) nlooks). int m mod n \<noteq> 0
                   then [remainder_warning] else []), out)))"
  using validate_checked[OF assms] multilook_after_validation by blast

theorem validate_warnings_witness:
  "validate_nlooks [3, 2] \<lparr>shape = [3, 4], data = replicate 12 (0::real)\<rparr> = Inr [even_warning]
   \<and> validate_nlooks [3, 3] \<lparr>shape = [5, 3], data = replicate 15 (0::real)\<rparr> = Inr [remainder_warning]
   \<and> validate_nlooks [2] \<lparr>shape = [5], data = replicate 5 (0::real)\<rparr>
       = Inr [even_warning, remainder_warning]
   \<and> validate_nlooks [3, 1] \<lparr>shape = [3, 3], data = replicate 9 (0::real)\<rparr> = Inr []
   \<and> (\<exists>out. multilook \<lparr>shape = [5], data = replicate 5 (0::real)\<rparr> (Scalar 2)
        = Inr ([even_warning, remainder_warning], out))"
proof -
  have a: "validate_nlooks [3, 2] \<lparr>shape = [3, 4], data = replicate 12 (0::real)\<rparr> = Inr [even_warning]"
    using validate_warnings[of "\<lparr>shape = [3, 4], data = replicate 12 (0::real)\<rparr>" "[3, 2]"] by simp
  have b: "validate_nlooks [3, 3] \<lparr>shape = [5, 3], data = replicate 15 (0::real)\<rparr> = Inr [remainder_warning]"
    using validate_warnings[of "\<lparr>shape = [5, 3], data = replicate 15 (0::real)\<rparr>" "[3, 3]"] by simp
  have c: "validate_nlooks [3, 1] \<lparr>shape = [3, 3], data = replicate 9 (0::real)\<rparr> = Inr []"
    using validate_warnings[of "\<lparr>shape = [3, 3], data = replicate 9 (0::real)\<rparr>" "[3, 1]"] by simp
  let ?A = "\<lparr>shape = [5], data = replicate 5 (0::real)\<rparr>"
  have d: "validate_nlooks [2] ?A = Inr [even_warning, remainder_warning]
     \<and> (\<forall>spec. normalize_nlooks_tuple spec (ndim ?A) = Inr [2] \<longrightarrow>
        (\<exists>out. multilook ?A spec = Inr ([even_warning, remainder_warning], out)))"
    using validate_warnings[of ?A "[2]"] by simp
  have n: "normalize_nlooks_tuple (Scalar 2) (ndim ?A) = Inr [2]"
    by (simp add: normalize_nlooks_tuple_def ndim_def)
  from a b c d n show ?thesis by blast
qed

section \<open>The result of multilook\<close>

lemma valid_validate:
  "valid_nlooks nlooks arr \<Longrightarrow> \<exists>ws. validate_nlooks nlooks arr = Inr ws"
  using validate_checked[OF valid_nlooks_zip] by blast

text \<open>
  Claim C8. Once normalisation has given a tuple \<open>nlooks\<close> of \<open>arr.ndim\<close> integers with
  \<open>1 <= nlooks[i] <= arr.shape[i]\<close> on every axis, \<open>multilook\<close> returns an array: no step
  after validation raises. In particular \<open>out_shape\<close> has the length of \<open>nlooks\<close>, so
  \<open>interleave\<close> does not take its \<open>ValueError\<close> branch.
\<close>

theorem multilook_total:
  fixes arr :: "('a::field) ndarray"
  assumes "normalize_nlooks_tuple spec (ndim arr) = Inr nlooks" and "valid_nlooks nlooks arr"
  shows "(\<exists>ws out. multilook arr spec = Inr (ws, out))
       \<and> (\<exists>out_shape tmp_shape. floor_divide (map int (shape arr)) nlooks = Inr out_shape
             \<and> length out_shape = length nlooks
             \<and> interleave out_shape nlooks = Inr tmp_shape)"
proof -
  from assms(2) obtain ws where "validate_nlooks nlooks arr = Inr ws"
    using valid_validate by blast
  with assms(1) have "multilook arr spec = Inr (ws, box_means arr (map nat nlooks))"
    by (rule multilook_after_validation)
  moreover have "length (map int (shape arr)) = length nlooks"
    using assms(2) by (simp add: valid_nlooks_def ndim_def)
  then have "floor_divide (map int (shape arr)) nlooks
        = Inr (map2 (\<lambda>m n. m div n) (map int (shape arr)) nlooks)
      \<and> length (map2 (\<lambda>m n. m div n) (map int (shape arr)) nlooks) = length nlooks
      \<and> interleave (map2 (\<lambda>m n. m div n) (map int (shape arr)) nlooks) nlooks
          = Inr (pairs_flat (map2 (\<lambda>m n. m div n) (map int (shape arr)) nlooks) nlooks)"
    by (simp add: floor_divide_def broadcast2_def interleave_def)
  ultimately show ?thesis by blast
qed

theorem multilook_total_witness:
  "valid_nlooks [2] \<lparr>shape = [5], data = [1, 2, 3, 4, 5 :: real]\<rparr>
   \<and> (\<exists>ws out. multilook \<lparr>shape = [5], data = [1, 2, 3, 4, 5 :: real]\<rparr> (Iterable [2]) = Inr (ws, out))
   \<and> (\<exists>out_shape tmp_shape. floor_divide [5] [2] = Inr out_shape
        \<and> interleave out_shape [2] = Inr tmp_shape)"
proof -
  let ?A = "\<lparr>shape = [5], data = [1, 2, 3, 4, 5 :: real]\<rparr>"
  have n: "normalize_nlooks_tuple (Iterable [2]) (ndim ?A) = Inr [2]"
    by (simp add: normalize_nlooks_tuple_def ndim_def)
  have v: "valid_nlooks [2] ?A" by (simp add: valid_nlooks_def ndim_def)
  from multilook_total[OF n v] v show ?thesis by auto
qed

lemma box_means_shape_nth:
  assumes "valid_nlooks nlooks arr" and "i < ndim arr"
  shows "int (shape (box_means arr (map nat nlooks)) ! i) = int (shape arr ! i) div nlooks ! i"
proof -
  from assms(1) have len: "length nlooks = length (shape arr)"
    and all: "list_all2 (\<lambda>m n. 1 \<le> n \<and> n \<le> int m) (shape arr) nlooks"
    by (simp_all add: valid_nlooks_def ndim_def)
  from assms(2) have i: "i < length (shape arr)" by (simp add: ndim_def)
  from all i have "1 \<le> nlooks ! i" by (auto dest: list_all2_nthD)
  then have "int (shape arr ! i div nat (nlooks ! i)) = int (shape arr ! i) div nlooks ! i"
    by (simp add: zdiv_int)
  then show ?thesis using i len by (simp add: box_means_def)
qed

lemma box_means_wf: "wf_array (box_means arr ns)"
  by (simp add: wf_array_def box_means_def length_indices)

text \<open>
  Claim C2. For a valid window-size tuple, the array returned by \<open>multilook\<close> has the rank of
  the input, and its extent along every axis \<open>i\<close> is \<open>arr.shape[i] // nlooks[i]\<close>; it holds
  as many elements as its shape says.
\<close>

theorem multilook_shape:
  fixes arr :: "('a::field) ndarray"
  assumes "normalize_nlooks_tuple spec (ndim arr) = Inr nlooks" and "valid_nlooks nlooks arr"
  shows "\<exists>ws out. multilook arr spec = Inr (ws, out) \<and> wf_array out \<and> ndim out = ndim arr
           \<and> (\<forall>i<ndim arr. int (shape out ! i) = int (shape arr ! i) div nlooks ! i)"
proof -
  from assms(2) obtain ws where "validate_nlooks nlooks arr = Inr ws"
    using valid_validate by blast
  with assms(1) have m: "multilook arr spec = Inr (ws, box_means arr (map nat nlooks))"
    by (rule multilook_after_validation)
  have "ndim (box_means arr (map nat nlooks)) = ndim arr"
    using assms(2) by (simp add: box_means_def ndim_def valid_nlooks_def)
  with m box_means_wf box_means_shape_nth[OF assms(2)] show ?thesis by blast
qed

theorem multilook_shape_witness:
  "\<exists>ws out. multilook \<lparr>shape = [5, 3], data = map of_nat [0..<15] :: real list\<rparr> (Iterable [2, 3])
       = Inr (ws, out) \<and> shape out = [2, 1]"
proof -
  let ?A = "\<lparr>shape = [5, 3], data = map of_nat [0..<15] :: real list\<rparr>"
  have n: "normalize_nlooks_tuple (Iterable [2, 3]) (ndim ?A) = Inr [2, 3]"
    by (simp add: normalize_nlooks_tuple_def ndim_def)
  have v: "valid_nlooks [2, 3] ?A" by (simp add: valid_nlooks_def ndim_def)
  from multilook_shape[OF n v] obtain ws out where
    m: "multilook ?A (Iterable [2, 3]) = Inr (ws, out)" and nd: "ndim out = ndim ?A"
    and sh: "\<forall>i<ndim ?A. int (shape out ! i) = int (shape ?A ! i) div [2, 3] ! i"
    by blast
  from nd have l: "length (shape out) = 2" by (simp add: ndim_def)
  from sh have "int (shape out ! 0) = 2" "int (shape out ! 1) = 1"
    by (simp_all add: ndim_def)
  then have "shape out ! 0 = 2" "shape out ! 1 = 1" by simp_all
  with l have "shape out = [2, 1]"
    by (cases "shape out"; cases "tl (shape out)") auto
  with m show ?thesis by blast
qed

section \<open>Each output element is a block mean\<close>

lemma block_indices_shift:
  "length j = length ns \<Longrightarrow>
   block_indices ns j = map (\<lambda>k. map2 (+) (map2 (*) j ns) k) (indices ns)"
proof (induction j ns rule: list_induct2)
  case Nil
  then show ?case by simp
next
  case (Cons j js n ns)
  have r: "[j * n..<(j + 1) * n] = map (\<lambda>i. j * n + i) [0..<n]"
    using map_add_upt[of "j * n" n] by (simp add: add.commute)
  show ?case
    unfolding block_indices.simps r
    by (simp add: Cons.IH map_concat comp_def)
qed

lemma box_means_item:
  fixes arr :: "('a::field) ndarray"
  assumes len: "length (shape arr) = length ns" and j: "list_all2 (<) j (shape (box_means arr ns))"
  shows "getitem (box_means arr ns) j = block_mean arr ns j"
    and "length (block_indices ns j) = prod_list ns"
proof -
  let ?os = "map2 (div) (shape arr) ns"
  from j have j': "list_all2 (<) j ?os" by (simp add: box_means_def)
  then have lj: "length j = length ns" using len by (auto dest: list_all2_lengthD)
  have bi: "block_indices ns j = map (\<lambda>k. map2 (+) (map2 (*) j ns) k) (indices ns)"
    using lj by (rule block_indices_shift)
  show l: "length (block_indices ns j) = prod_list ns"
    by (simp add: bi length_indices)
  have lt: "ravel ?os j < length (indices ?os)"
    using j' by (simp only: length_indices ravel_less)
  have "getitem (box_means arr ns) j
      = map (\<lambda>j. sum_list (map (\<lambda>k. getitem arr (map2 (+) (map2 (*) j ns) k)) (indices ns))
                        / of_nat (prod_list ns)) (indices ?os) ! ravel ?os j"
    by (simp only: getitem_def box_means_def ndarray.simps)
  also have "\<dots> = sum_list (map (\<lambda>k. getitem arr (map2 (+) (map2 (*) (indices ?os ! ravel ?os j) ns) k)) (indices ns))
                        / of_nat (prod_list ns)"
    using lt by (rule nth_map)
  also have "indices ?os ! ravel ?os j = j" using j' by (rule indices_nth_ravel)
  also have "sum_list (map (\<lambda>k. getitem arr (map2 (+) (map2 (*) j ns) k)) (indices ns))
                        / of_nat (prod_list ns) = block_mean arr ns j"
    unfolding block_mean_def l by (simp add: bi comp_def)
  finally show "getitem (box_means arr ns) j = block_mean arr ns j" .
qed

lemma block_indices_in_valid:
  assumes len: "length os = length ns" and j: "list_all2 (<) j os"
    and idx: "idx \<in> set (block_indices ns j)"
  shows "list_all2 (<) idx (map2 (*) os ns)"
proof -
  from j len have lj: "length j = length ns" by (auto dest: list_all2_lengthD)
  from idx obtain k where k: "k \<in> set (indices ns)" "idx = map2 (+) (map2 (*) j ns) k"
    unfolding block_indices_shift[OF lj] by auto
  from k(1) have "list_all2 (<) k ns" by (simp add: set_indices)
  with len j show ?thesis unfolding k(2) by (rule block_index_in_range)
qed

text \<open>
  Claim C1. For a valid window-size tuple, the element of \<open>multilook(arr, nlooks)\<close> at every
  multi-index \<open>j\<close> is the arithmetic mean of the input over the box
  \<open>arr[j1*n1 : (j1+1)*n1, ..., jN*nN : (jN+1)*nN]\<close>, which has \<open>prod(nlooks)\<close> elements. Every
  index of such a box lies below \<open>out_shape[i] * nlooks[i]\<close> on each axis, so the trailing
  remainder of an axis enters no output element.
\<close>

theorem multilook_block_mean:
  fixes arr :: "('a::field) ndarray"
  assumes "normalize_nlooks_tuple spec (ndim arr) = Inr nlooks" and "valid_nlooks nlooks arr"
  shows "\<exists>ws out. multilook arr spec = Inr (ws, out)
          \<and> shape out = map2 (div) (shape arr) (map nat nlooks)
          \<and> (\<forall>j. list_all2 (<) j (shape out) \<longrightarrow>
                getitem out j = block_mean arr (map nat nlooks) j
                \<and> length (block_indices (map nat nlooks) j) = prod_list (map nat nlooks)
                \<and> (\<forall>idx \<in> set (block_indices (map nat nlooks) j).
                      list_all2 (<) idx (map2 (*) (shape out) (map nat nlooks))))"
proof -
  let ?ns = "map nat nlooks"
  let ?out = "box_means arr ?ns"
  from assms(2) obtain ws where "validate_nlooks nlooks arr = Inr ws"
    using valid_validate by blast
  with assms(1) have m: "multilook arr spec = Inr (ws, ?out)"
    by (rule multilook_after_validation)
  have len: "length (shape arr) = length ?ns"
    using assms(2) by (simp add: valid_nlooks_def ndim_def)
  have sh: "shape ?out = map2 (div) (shape arr) ?ns" by (simp add: box_means_def)
  have len': "length (shape ?out) = length ?ns" using len by (simp add: sh)
  have "\<forall>j. list_all2 (<) j (shape ?out) \<longrightarrow>
                getitem ?out j = block_mean arr ?ns j
                \<and> length (block_indices ?ns j) = prod_list ?ns
                \<and> (\<forall>idx \<in> set (block_indices ?ns j).
                      list_all2 (<) idx (map2 (*) (shape ?out) ?ns))"
    using box_means_item[OF len] block_indices_in_valid[OF len'] by blast
  with m sh show ?thesis by blast
qed

theorem multilook_block_mean_witness:
  "\<exists>ws out. multilook \<lparr>shape = [3, 4], data = [1, 2, 3, 4, 5, 6, 7, 8, 9, 10, 11, 12 :: real]\<rparr>
                (Iterable [2, 2]) = Inr (ws, out)
     \<and> shape out = [1, 2]
     \<and> getitem out [0, 1] = 11 / 2
     \<and> block_indices [2, 2] [0, 1] = [[0, 2], [0, 3], [1, 2], [1, 3]]"
proof -
  let ?A = "\<lparr>shape = [3, 4], data = [1, 2, 3, 4, 5, 6, 7, 8, 9, 10, 11, 12 :: real]\<rparr>"
  have n: "normalize_nlooks_tuple (Iterable [2, 2]) (ndim ?A) = Inr [2, 2]"
    by (simp add: normalize_nlooks_tuple_def ndim_def)
  have v: "valid_nlooks [2, 2] ?A" by (simp add: valid_nlooks_def ndim_def)
  from multilook_block_mean[OF n v] obtain ws out where
    m: "multilook ?A (Iterable [2, 2]) = Inr (ws, out)"
    and sh: "shape out = map2 (div) (shape ?A) (map nat [2, 2])"
    and el: "\<forall>j. list_all2 (<) j (shape out) \<longrightarrow>
                getitem out j = block_mean ?A (map nat [2, 2]) j"
    by blast
  have sh': "shape out = [1, 2]" using sh by simp
  have b: "block_indices [2, 2] [0, 1] = [[0, 2], [0, 3], [1, 2], [1, 3]]"
    by (simp add: upt_rec)
  have "list_all2 (<) [0, 1] (shape out)" by (simp add: sh')
  with el have "getitem out [0, 1] = block_mean ?A (map nat [2, 2]) [0, 1]" by blast
  also have "map nat [2, 2] = [2, 2]" by simp
  also have "block_mean ?A [2, 2] [0, 1] = 11 / 2"
    unfolding block_mean_def b by (simp add: getitem_def)
  finally show ?thesis using m sh' b by blast
qed

section \<open>Multilooking a tiled array\<close>

lemma concat_blocks_upt:
  "concat (map (\<lambda>i. map (\<lambda>r. i * p + r) [0..<p]) [0..<d]) = [0..<d * p]"
proof (induction d)
  case 0
  then show ?case by simp
next
  case (Suc d)
  have f: "(\<lambda>r. d * p + r) = (\<lambda>r. r + d * p)" by (rule ext) (rule add.commute)
  have a: "map (\<lambda>r. d * p + r) [0..<p] = [d * p..<d * p + p]"
    unfolding f using map_add_upt[of "d * p" p] by (simp only: add.commute[of p "d * p"])
  have b: "[0..<d * p + p] = [0..<d * p] @ [d * p..<d * p + p]"
    by (rule upt_add_eq_append) (rule le0)
  have c: "Suc d * p = d * p + p" by (simp only: mult_Suc add.commute)
  have "concat (map (\<lambda>i. map (\<lambda>r. i * p + r) [0..<p]) [0..<Suc d])
      = concat (map (\<lambda>i. map (\<lambda>r. i * p + r) [0..<p]) [0..<d]) @ map (\<lambda>r. d * p + r) [0..<p]"
    by (simp only: upt_Suc_append[OF le0] map_append concat_append list.map concat.simps append_Nil2)
  also have "\<dots> = [0..<Suc d * p]" by (simp only: Suc.IH a b c)
  finally show ?case .
qed

lemma map_ravel_indices: "map (ravel s) (indices s) = [0..<prod_list s]"
proof (induction s)
  case Nil
  then show ?case by simp
next
  case (Cons d ds)
  have "map (ravel (d # ds)) (indices (d # ds))
      = concat (map (\<lambda>i. map (\<lambda>r. i * prod_list ds + r) (map (ravel ds) (indices ds))) [0..<d])"
    by (simp add: map_concat comp_def)
  also have "\<dots> = [0..<d * prod_list ds]"
    unfolding Cons.IH by (rule concat_blocks_upt)
  finally show ?case by simp
qed

lemma data_by_indices:
  assumes "wf_array c"
  shows "map (getitem c) (indices (shape c)) = data c"
proof -
  have "map (getitem c) (indices (shape c))
      = map ((!) (data c)) (map (ravel (shape c)) (indices (shape c)))"
    by (simp add: getitem_def comp_def)
  also have "\<dots> = map ((!) (data c)) [0..<length (data c)]"
    using assms by (simp only: map_ravel_indices wf_array_def)
  also have "\<dots> = data c" by (rule map_nth)
  finally show ?thesis .
qed

lemma div_block_index:
  "length j = length ks \<Longrightarrow> list_all2 (<) t ks \<Longrightarrow>
   map2 (div) (map2 (+) (map2 (*) j ks) t) ks = (j :: nat list)"
proof (induction j ks arbitrary: t rule: list_induct2)
  case Nil
  then show ?case by simp
next
  case (Cons x xs k ks)
  then obtain t0 ts where t: "t = t0 # ts" "t0 < k" "list_all2 (<) ts ks"
    by (auto simp: list_all2_Cons2)
  with Cons.IH[of ts] show ?case by simp
qed

lemma div_tiled_shape:
  "length s = length ks \<Longrightarrow> \<forall>n \<in> set ks. 1 \<le> n \<Longrightarrow>
   map2 (div) (map2 (*) s ks) ks = (s :: nat list)"
  by (induction s ks rule: list_induct2) auto

lemma tile_blocks_item:
  assumes len: "length (shape c) = length ks"
    and j: "j \<in> set (indices (shape c))" and t: "t \<in> set (indices ks)"
  shows "getitem (tile_blocks c ks) (map2 (+) (map2 (*) j ks) t) = getitem c j"
proof -
  let ?V = "map2 (*) (shape c) ks"
  let ?idx = "map2 (+) (map2 (*) j ks) t"
  from j t have jt: "list_all2 (<) j (shape c)" "list_all2 (<) t ks" by (simp_all add: set_indices)
  then have lj: "length j = length ks" using len by (auto dest: list_all2_lengthD)
  have rng: "list_all2 (<) ?idx ?V" using len jt by (rule block_index_in_range)
  have lt: "ravel ?V ?idx < length (indices ?V)"
    using rng by (simp only: length_indices ravel_less)
  have "getitem (tile_blocks c ks) ?idx
      = map (\<lambda>idx. getitem c (map2 (div) idx ks)) (indices ?V) ! ravel ?V ?idx"
    by (simp only: getitem_def tile_blocks_def ndarray.simps)
  also have "\<dots> = getitem c (map2 (div) (indices ?V ! ravel ?V ?idx) ks)"
    using lt by (rule nth_map)
  also have "indices ?V ! ravel ?V ?idx = ?idx" using rng by (rule indices_nth_ravel)
  also have "map2 (div) ?idx ks = j" using lj jt(2) by (rule div_block_index)
  finally show ?thesis .
qed

lemma box_means_tile_blocks:
  fixes c :: "('a::field_char_0) ndarray"
  assumes wf: "wf_array c" and len: "length (shape c) = length ks" and pos: "\<forall>n \<in> set ks. 1 \<le> n"
  shows "box_means (tile_blocks c ks) ks = c"
proof -
  let ?T = "tile_blocks c ks"
  have shT: "shape ?T = map2 (*) (shape c) ks" by (simp add: tile_blocks_def)
  have sh: "map2 (div) (shape ?T) ks = shape c"
    unfolding shT using len pos by (rule div_tiled_shape)
  have p0: "(of_nat (prod_list ks) :: 'a) \<noteq> 0"
    using pos by (auto simp: prod_list_zero_iff)
  have el: "sum_list (map (\<lambda>t. getitem ?T (map2 (+) (map2 (*) j ks) t)) (indices ks))
              / of_nat (prod_list ks) = getitem c j"
    if j: "j \<in> set (indices (shape c))" for j
  proof -
    have "map (\<lambda>t. getitem ?T (map2 (+) (map2 (*) j ks) t)) (indices ks)
        = map (\<lambda>t. getitem c j) (indices ks)"
      by (intro map_cong refl) (rule tile_blocks_item[OF len j])
    then have "sum_list (map (\<lambda>t. getitem ?T (map2 (+) (map2 (*) j ks) t)) (indices ks))
        = sum_list (map (\<lambda>t. getitem c j) (indices ks))"
      by (rule arg_cong)
    also have "\<dots> = of_nat (prod_list ks) * getitem c j"
      by (simp add: sum_list_triv length_indices)
    finally show ?thesis using p0 by simp
  qed
  have "map (\<lambda>j. sum_list (map (\<lambda>t. getitem ?T (map2 (+) (map2 (*) j ks) t)) (indices ks))
                        / of_nat (prod_list ks)) (indices (shape c))
      = map (getitem c) (indices (shape c))"
    by (intro map_cong refl) (rule el)
  also have "\<dots> = data c" using wf by (rule data_by_indices)
  finally have dat: "map (\<lambda>j. sum_list (map (\<lambda>t. getitem ?T (map2 (+) (map2 (*) j ks) t)) (indices ks))
                        / of_nat (prod_list ks)) (indices (shape c)) = data c" .
  show ?thesis
    unfolding box_means_def sh dat by simp
qed

lemma valid_nlooks_tile_blocks:
  assumes len: "length k = length (shape c)" and kpos: "\<forall>n \<in> set k. 1 \<le> n"
    and cpos: "\<forall>m \<in> set (shape c). 1 \<le> m"
  shows "valid_nlooks k (tile_blocks c (map nat k))"
proof -
  have "list_all2 (\<lambda>m n. 1 \<le> n \<and> n \<le> int m) (map2 (*) (shape c) (map nat k)) k"
  proof (rule list_all2_all_nthI)
    show "length (map2 (*) (shape c) (map nat k)) = length k" using len by simp
  next
    fix i assume "i < length (map2 (*) (shape c) (map nat k))"
    then have i: "i < length k" "i < length (shape c)" using len by simp_all
    then have k1: "1 \<le> k ! i" and c1: "1 \<le> shape c ! i" using kpos cpos by auto
    have "nat (k ! i) \<le> shape c ! i * nat (k ! i)" using c1 by simp
    then have "k ! i \<le> int (shape c ! i * nat (k ! i))" using k1 by linarith
    with k1 i show "1 \<le> k ! i \<and> k ! i \<le> int (map2 (*) (shape c) (map nat k) ! i)"
      by simp
  qed
  then show ?thesis using len by (simp add: valid_nlooks_def tile_blocks_def ndim_def)
qed

text \<open>
  In exact arithmetic, over a field of characteristic zero such as the real or the complex
  numbers, multilooking a tiled array gives back the canonical array: if the extents of \<open>c\<close>
  and the entries of \<open>k\<close> are all at least one and \<open>tiled\<close> repeats each element of \<open>c\<close>
  \<open>k\<^sub>i\<close> times along axis \<open>i\<close>, then \<open>multilook(tiled, k)\<close> is \<open>c\<close>. The proof divides a sum of
  \<open>prod(k)\<close> equal terms by \<open>prod(k)\<close>, a law that floating-point numbers do not obey (the
  sum may round or overflow), so this says nothing about \<open>float64\<close> elements.
\<close>

lemma tiling_round_trip_exact:
  fixes c :: "('a::field_char_0) ndarray"
  assumes wf: "wf_array c"
    and norm: "normalize_nlooks_tuple spec (ndim c) = Inr k"
    and kpos: "\<forall>n \<in> set k. 1 \<le> n"
    and cpos: "\<forall>m \<in> set (shape c). 1 \<le> m"
  shows "\<exists>ws. multilook (tile_blocks c (map nat k)) spec = Inr (ws, c)"
proof -
  let ?T = "tile_blocks c (map nat k)"
  have len: "length k = length (shape c)" using normalize_length[OF norm] by (simp add: ndim_def)
  have nd: "ndim ?T = ndim c" using len by (simp add: tile_blocks_def ndim_def)
  have "valid_nlooks k ?T" using len kpos cpos by (rule valid_nlooks_tile_blocks)
  then obtain ws where v: "validate_nlooks k ?T = Inr ws" using valid_validate by blast
  have "multilook ?T spec = Inr (ws, box_means ?T (map nat k))"
    using norm v by (intro multilook_after_validation) (simp_all only: nd)
  moreover have "box_means ?T (map nat k) = c"
    using wf len kpos by (intro box_means_tile_blocks) auto
  ultimately show ?thesis by simp
qed

lemma tiling_round_trip_exact_example:
  "tile_blocks \<lparr>shape = [2, 2], data = [1, 2, 3, 4 :: complex]\<rparr> (map nat [1, 2])
     = \<lparr>shape = [2, 4], data = [1, 1, 2, 2, 3, 3, 4, 4]\<rparr>
   \<and> (\<exists>ws. multilook \<lparr>shape = [2, 4], data = [1, 1, 2, 2, 3, 3, 4, 4 :: complex]\<rparr> (Iterable [1, 2])
          = Inr (ws, \<lparr>shape = [2, 2], data = [1, 2, 3, 4]\<rparr>))"
proof -
  let ?c = "\<lparr>shape = [2, 2], data = [1, 2, 3, 4 :: complex]\<rparr>"
  have w: "wf_array ?c" by (simp add: wf_array_def)
  have n: "normalize_nlooks_tuple (Iterable [1, 2]) (ndim ?c) = Inr [1, 2]"
    by (simp add: normalize_nlooks_tuple_def ndim_def)
  have t: "tile_blocks ?c (map nat [1, 2]) = \<lparr>shape = [2, 4], data = [1, 1, 2, 2, 3, 3, 4, 4]\<rparr>"
    by (simp add: tile_blocks_def getitem_def upt_rec)
  have "\<exists>ws. multilook (tile_blocks ?c (map nat [1, 2])) (Iterable [1, 2]) = Inr (ws, ?c)"
    using tiling_round_trip_exact[OF w n] by simp
  then show ?thesis unfolding t using t by simp
qed

text \<open>
  The extents have to be positive: with an axis of extent zero the tiled array has extent
  zero too, and the check \<open>n > m\<close> of \<open>validate_nlooks\<close> raises.
\<close>

lemma tiling_zero_extent_raises:
  "wf_array \<lparr>shape = [0], data = ([] :: real list)\<rparr>
   \<and> multilook (tile_blocks \<lparr>shape = [0], data = ([] :: real list)\<rparr> (map nat [1])) (Iterable [1])
       = Inl (ValueError ''number of looks should not exceed array shape'')"
  by (simp add: wf_array_def tile_blocks_def multilook_def exn_bind_def normalize_nlooks_tuple_def
      ndim_def validate_nlooks_def)

section \<open>Ceiling division\<close>

lemma ceil_div_pos:
  fixes x d :: int
  assumes "0 < d"
  shows "(x + d - 1) div d = - (- x div d)"
proof (rule int_div_pos_eq)
  show "x + d - 1 = d * - (- x div d) + (d - 1 - (- x) mod d)"
    using div_mult_mod_eq[of "- x" d] by (simp add: algebra_simps)
  show "0 \<le> d - 1 - (- x) mod d" using pos_mod_bound[OF assms, of "- x"] by simp
  show "d - 1 - (- x) mod d < d" using pos_mod_sign[OF assms, of "- x"] by simp
qed

lemma ceil_div_neg:
  fixes x d :: int
  assumes "d < 0"
  shows "(x + d + 1) div d = - (- x div d)"
proof (rule int_div_neg_eq)
  show "x + d + 1 = d * - (- x div d) + (d + 1 - (- x) mod d)"
    using div_mult_mod_eq[of "- x" d] by (simp add: algebra_simps)
  show "d + 1 - (- x) mod d \<le> 0" using neg_mod_bound[OF assms, of "- x"] by simp
  show "d < d + 1 - (- x) mod d" using neg_mod_sign[OF assms, of "- x"] by simp
qed

lemma ceil_div_int:
  fixes x d :: int
  assumes "d \<noteq> 0"
  shows "(x + d - sgn d) div d = \<lceil>real_of_int x / real_of_int d\<rceil>"
proof (cases "0 < d")
  case True
  then show ?thesis using ceil_div_pos[OF True, of x] by (simp add: ceiling_divide_eq_div)
next
  case False
  with assms have neg: "d < 0" by simp
  then show ?thesis using ceil_div_neg[OF neg, of x] by (simp add: ceiling_divide_eq_div)
qed

lemma sint_np_sign: "sint (np_sign d) = sgn (sint d)"
  by (simp add: np_sign_def sgn_if)

lemma sint_in_range:
  "- (2 ^ 63) \<le> x \<Longrightarrow> x < 2 ^ 63 \<Longrightarrow> sint (word_of_int x :: int64) = x"
  by (simp add: sint_sbintrunc' signed_take_bit_int_eq_self)

lemma numerator_word:
  "n + d - np_sign d = (word_of_int (sint n + sint d - sgn (sint d)) :: int64)"
  by (simp add: sint_np_sign[symmetric])

text \<open>
  Where the numerator \<open>n + d - sign(d)\<close> does not wrap around, the formula gives the ceiling
  of the exact quotient, for positive and for negative \<open>d\<close>.
\<close>

lemma ceil_divide_no_wrap:
  assumes d: "sint d \<noteq> 0"
    and lo: "- (2 ^ 63) \<le> sint n + sint d - sgn (sint d)"
    and hi: "sint n + sint d - sgn (sint d) < 2 ^ 63"
    and qlo: "- (2 ^ 63) \<le> \<lceil>real_of_int (sint n) / real_of_int (sint d)\<rceil>"
    and qhi: "\<lceil>real_of_int (sint n) / real_of_int (sint d)\<rceil> < 2 ^ 63"
  shows "sint (ceil_divide n d) = \<lceil>real_of_int (sint n) / real_of_int (sint d)\<rceil>"
proof -
  have num: "sint (n + d - np_sign d) = sint n + sint d - sgn (sint d)"
    unfolding numerator_word using lo hi by (rule sint_in_range)
  have "sint (ceil_divide n d) = sint (word_of_int ((sint n + sint d - sgn (sint d)) div sint d) :: int64)"
    by (simp only: ceil_divide_def np_floor_divide_def num)
  also have "(sint n + sint d - sgn (sint d)) div sint d = \<lceil>real_of_int (sint n) / real_of_int (sint d)\<rceil>"
    using d by (rule ceil_div_int)
  also have "sint (word_of_int \<lceil>real_of_int (sint n) / real_of_int (sint d)\<rceil> :: int64)
      = \<lceil>real_of_int (sint n) / real_of_int (sint d)\<rceil>"
    using qlo qhi by (rule sint_in_range)
  finally show ?thesis .
qed

lemma ceil_divide_no_wrap_example:
  "sint (ceil_divide 7 (- 2)) = - 3 \<and> sint (ceil_divide (- 7) 2) = - 3
   \<and> sint (ceil_divide 7 2) = 4 \<and> sint (ceil_divide 6 3) = 2"
  using ceil_divide_no_wrap[of "- 2" 7] ceil_divide_no_wrap[of 2 "- 7"]
    ceil_divide_no_wrap[of 2 7] ceil_divide_no_wrap[of 3 6]
  by simp

text \<open>
  Claim C10 says that \<open>ceil_divide(n, d)\<close> is the ceiling of the exact quotient \<open>n / d\<close> for
  every integer \<open>n\<close> and every nonzero \<open>d\<close>, as the docstring of the function does. The code
  does not meet it: at \<open>n = 2^63 - 1\<close> and \<open>d = 2\<close> the ceiling \<open>2^62\<close> fits in 64 bits, but
  the numerator \<open>n + d - sign(d)\<close> wraps around to \<open>- 2^63\<close> and the function returns
  \<open>- 2^62\<close>.
\<close>

theorem ceil_divide_overflow:
  "sint (ceil_divide 0x7FFFFFFFFFFFFFFF 2) = - 4611686018427387904
   \<and> \<lceil>real_of_int (sint (0x7FFFFFFFFFFFFFFF :: int64)) / real_of_int (sint (2 :: int64))\<rceil>
       = 4611686018427387904
   \<and> sint (ceil_divide 0x7FFFFFFFFFFFFFFF 2)
       \<noteq> \<lceil>real_of_int (sint (0x7FFFFFFFFFFFFFFF :: int64)) / real_of_int (sint (2 :: int64))\<rceil>"
  by (simp add: ceil_divide_def np_floor_divide_def np_sign_def)

end
